theory Spec2Isabelle
  imports Complex_Main "HOL-Library.Multiset" "HOL-Library.Log_Nat"
begin

section \<open>Request statistics of the load tester (\<^verbatim>\<open>src/assault/stats.py\<close>)\<close>

text \<open>
  The module holds one class, \<^verbatim>\<open>Results\<close>: its constructor stores the elapsed
  wall-clock time and the list of request records sorted by their \<^verbatim>\<open>request_time\<close>,
  and seven methods compute statistics from the two fields.

  Modelling decisions.
  \<^item> A request is a Python dict read only at the keys \<^verbatim>\<open>"status_code"\<close> and
    \<^verbatim>\<open>"request_time"\<close>; it is a record of these two fields (a dict lacking one of them
    is outside the model).
  \<^item> \<^verbatim>\<open>total_time\<close> and \<^verbatim>\<open>request_time\<close> are finite Python floats (IEEE 754 binary64).
    A finite double is a rational number, and the fields hold that rational; an
    infinite or NaN field is outside the model, and the two zeros are one.
  \<^item> The throughput methods divide an \<^verbatim>\<open>int\<close> by \<^verbatim>\<open>total_time\<close> and round the quotient.
    The division is the double-precision one: the exact quotient rounded to the nearest
    double, ties to the even significand, or to an infinity beyond the largest double;
    \<^verbatim>\<open>round\<close> of an infinity raises \<^verbatim>\<open>OverflowError\<close>.
  \<^item> \<^verbatim>\<open>sum\<close> and \<^verbatim>\<open>statistics.mean\<close> are taken in exact arithmetic: the rounding of
    float addition, and of the mean to a double, is not modelled. What is proved of
    \<^verbatim>\<open>average_time\<close> and \<^verbatim>\<open>requests_total_time\<close> is therefore limited to properties that
    rounding preserves (raising or not, order between results, independence of the
    order of the input).
  \<^item> Python exceptions are values: every method returns \<open>py_error + 'a\<close>, with \<open>Inl\<close>
    for the exception raised.
\<close>

subsection \<open>Data\<close>

datatype py_error = IndexError | StatisticsError | ZeroDivisionError | OverflowError

record request =
  status_code :: int
  request_time :: rat

record Results =
  total_time :: rat
  requests :: "request list"

text \<open>The result of a double-precision operation on finite operands.\<close>

datatype pyfloat = Finite rat | PosInf | NegInf

subsection \<open>The Python built-ins the methods call\<close>

text \<open>
  \<^verbatim>\<open>xs[i]\<close>: a negative index counts from the end, an index out of range raises
  \<^verbatim>\<open>IndexError\<close>.
\<close>

definition getitem :: "'a list \<Rightarrow> int \<Rightarrow> py_error + 'a" where
  "getitem xs i =
     (let k = (if i < 0 then i + int (length xs) else i)
      in if k < 0 \<or> int (length xs) \<le> k then Inl IndexError else Inr (xs ! nat k))"

text \<open>
  \<^verbatim>\<open>sum(iterable)\<close>: a left fold of \<^verbatim>\<open>+\<close> that starts from \<^verbatim>\<open>0\<close>; an empty iterable
  gives the start value.
\<close>

definition py_sum :: "rat list \<Rightarrow> rat" where
  "py_sum xs = foldl (\<lambda>acc x. acc + x) 0 xs"

text \<open>
  \<^verbatim>\<open>statistics.mean(data)\<close>: raises \<^verbatim>\<open>StatisticsError\<close> when there is no data point,
  and otherwise divides the exact sum by the number of data points.
\<close>

definition mean :: "rat list \<Rightarrow> py_error + rat" where
  "mean xs =
     (if length xs < 1 then Inl StatisticsError
      else Inr (sum_list xs / of_nat (length xs)))"

text \<open>\<^verbatim>\<open>x in range(lo, hi)\<close> for an integer \<open>x\<close>: the upper bound is excluded.\<close>

definition in_range :: "int \<Rightarrow> int \<Rightarrow> int \<Rightarrow> bool" where
  "in_range x lo hi \<longleftrightarrow> lo \<le> x \<and> x < hi"

text \<open>
  Rounding a rational to an integer, ties to even: the floor and the remainder decide;
  below a half the floor, above a half the next integer, and at exactly a half
  whichever of the two is even.
\<close>

definition round_half_even :: "rat \<Rightarrow> int" where
  "round_half_even x =
     (let fl = \<lfloor>x\<rfloor>; rem = x - of_int fl
      in if rem * 2 < 1 then fl
         else if 1 < rem * 2 then fl + 1
         else if fl mod 2 = 0 then fl
         else fl + 1)"

text \<open>
  The binary exponent of a positive rational \<open>a = p / q\<close>: the difference of the bit
  lengths of \<open>p\<close> and \<open>q\<close>, or one less.
\<close>

definition bexp :: "rat \<Rightarrow> int" where
  "bexp a =
     (let (p, q) = quotient_of a; d = bitlen p - bitlen q
      in if 2 powi d \<le> a then d else d - 1)"

text \<open>
  Rounding a magnitude to binary64: the significand has 53 bits, so the spacing of the
  doubles around \<open>a\<close> is \<open>2 powi (e - 52)\<close> for the exponent \<open>e\<close> of \<open>a\<close>, and at least
  \<open>2 powi (- 1074)\<close> (the subnormal range); \<open>a\<close> goes to the nearest multiple of the
  spacing, ties to the even multiple.
\<close>

definition round_mag :: "rat \<Rightarrow> rat" where
  "round_mag a =
     (let e = max (bexp a) (- 1022); ulp = 2 powi (e - 52)
      in of_int (round_half_even (a / ulp)) * ulp)"

text \<open>
  The double nearest to a rational: a rounded magnitude of \<open>2 ^ 1024\<close> or more is beyond
  the largest double and becomes an infinity of the sign of \<open>x\<close>.
\<close>

definition round_double :: "rat \<Rightarrow> pyfloat" where
  "round_double x =
     (let y = round_mag \<bar>x\<bar>
      in if 2 ^ 1024 \<le> y then (if x < 0 then NegInf else PosInf)
         else Finite (if x < 0 then - y else y))"

text \<open>
  An \<^verbatim>\<open>int\<close> operand of a float operation is converted to the nearest double;
  \<^verbatim>\<open>OverflowError\<close> when it is too large for one.
\<close>

definition int_to_double :: "int \<Rightarrow> py_error + rat" where
  "int_to_double k =
     (case round_double (of_int k) of Finite a \<Rightarrow> Inr a | _ \<Rightarrow> Inl OverflowError)"

text \<open>
  \<^verbatim>\<open>k / b\<close> for an \<^verbatim>\<open>int\<close> \<open>k\<close> and a float \<open>b\<close>: \<open>k\<close> is converted, a zero divisor raises
  \<^verbatim>\<open>ZeroDivisionError\<close>, and the quotient is rounded to a double or overflows to an
  infinity without raising.
\<close>

definition truediv :: "int \<Rightarrow> rat \<Rightarrow> py_error + pyfloat" where
  "truediv k b =
     (case int_to_double k of
        Inl e \<Rightarrow> Inl e
      | Inr a \<Rightarrow> if b = 0 then Inl ZeroDivisionError else Inr (round_double (a / b)))"

text \<open>
  \<^verbatim>\<open>round(x)\<close> with one argument, for a float \<open>x\<close>: the nearest integer, ties to even;
  \<^verbatim>\<open>OverflowError\<close> for an infinity.
\<close>

definition py_round :: "pyfloat \<Rightarrow> py_error + int" where
  "py_round x = (case x of Finite q \<Rightarrow> Inr (round_half_even q) | _ \<Rightarrow> Inl OverflowError)"

subsection \<open>The class \<^verbatim>\<open>Results\<close>\<close>

text \<open>
  \<^verbatim>\<open>__init__\<close>: \<^verbatim>\<open>sorted(requests, key=lambda r: r["request_time"])\<close> is a stable sort
  by the key, as \<^const>\<open>sort_key\<close> is.
\<close>

definition Results_init :: "rat \<Rightarrow> request list \<Rightarrow> Results" where
  "Results_init t rs = \<lparr>total_time = t, requests = sort_key request_time rs\<rparr>"

definition slowest :: "Results \<Rightarrow> py_error + rat" where
  "slowest R =
     (case getitem (requests R) (- 1) of Inl e \<Rightarrow> Inl e | Inr r \<Rightarrow> Inr (request_time r))"

definition fastest :: "Results \<Rightarrow> py_error + rat" where
  "fastest R =
     (case getitem (requests R) 0 of Inl e \<Rightarrow> Inl e | Inr r \<Rightarrow> Inr (request_time r))"

definition average_time :: "Results \<Rightarrow> py_error + rat" where
  "average_time R = mean (map request_time (requests R))"

definition requests_total_time :: "Results \<Rightarrow> py_error + rat" where
  "requests_total_time R = Inr (py_sum (map request_time (requests R)))"

definition successful_requests :: "Results \<Rightarrow> py_error + int" where
  "successful_requests R =
     Inr (int (length (filter (\<lambda>r. in_range (status_code r) 200 299) (requests R))))"

definition requests_per_minute :: "Results \<Rightarrow> py_error + int" where
  "requests_per_minute R =
     (case truediv (60 * int (length (requests R))) (total_time R) of
        Inl e \<Rightarrow> Inl e
      | Inr q \<Rightarrow> py_round q)"

definition requests_per_second :: "Results \<Rightarrow> py_error + int" where
  "requests_per_second R =
     (case truediv (int (length (requests R))) (total_time R) of
        Inl e \<Rightarrow> Inl e
      | Inr q \<Rightarrow> py_round q)"

subsection \<open>The data of the doctests\<close>

text \<open>
  The docstrings of the methods build \<^verbatim>\<open>Results(10.6, [...])\<close> from three requests, and
  the one of \<^verbatim>\<open>requests_per_second\<close> builds \<^verbatim>\<open>Results(3.5, [...])\<close> from these and a fourth.
  The decimal literals are taken as the rationals they denote.
\<close>

definition doctest_requests :: "request list" where
  "doctest_requests =
     [\<lparr>status_code = 200, request_time = 17 / 5\<rparr>,
      \<lparr>status_code = 500, request_time = 61 / 10\<rparr>,
      \<lparr>status_code = 200, request_time = 26 / 25\<rparr>]"

definition doctest_requests4 :: "request list" where
  "doctest_requests4 = doctest_requests @ [\<lparr>status_code = 200, request_time = 2 / 5\<rparr>]"

subsection \<open>The specification's rounding, in its own words\<close>

text \<open>
  Round-half-to-even to the nearest integer: \<open>r\<close> is an integer nearest to \<open>x\<close>, and
  when \<open>x\<close> lies exactly halfway between two integers \<open>r\<close> is the even one.
\<close>

definition nearest_ties_even :: "rat \<Rightarrow> int \<Rightarrow> bool" where
  "nearest_ties_even x r \<longleftrightarrow>
     \<bar>of_int r - x\<bar> < 1 / 2 \<or> (\<bar>of_int r - x\<bar> = 1 / 2 \<and> even r)"

section \<open>Properties\<close>

subsection \<open>Built-ins\<close>

lemma py_sum_acc: "foldl (\<lambda>acc x. acc + x) a xs = a + sum_list xs"
  for a :: rat
  by (induction xs arbitrary: a) (simp_all add: add.assoc)

lemma py_sum_eq: "py_sum xs = sum_list xs"
  by (simp add: py_sum_def py_sum_acc)

lemma getitem_last: "xs \<noteq> [] \<Longrightarrow> getitem xs (- 1) = Inr (last xs)"
  by (simp add: getitem_def last_conv_nth nat_diff_distrib' flip: of_nat_diff)

lemma getitem_first: "xs \<noteq> [] \<Longrightarrow> getitem xs 0 = Inr (hd xs)"
  by (simp add: getitem_def hd_conv_nth)

lemma getitem_Nil: "getitem [] i = Inl IndexError"
  by (simp add: getitem_def Let_def)

lemma sorted_last_Max: "sorted xs \<Longrightarrow> xs \<noteq> [] \<Longrightarrow> last xs = Max (set xs)"
  for xs :: "'a::linorder list"
  by (induction xs) (auto simp: max_def intro: antisym)

lemma sorted_hd_Min: "sorted xs \<Longrightarrow> xs \<noteq> [] \<Longrightarrow> hd xs = Min (set xs)"
  for xs :: "'a::linorder list"
  by (cases xs) (auto simp: min_def intro!: Min_eqI [symmetric])

subsection \<open>Rounding to an integer is the specification's rounding\<close>

lemma round_half_even_nearest: "nearest_ties_even x (round_half_even x)"
proof -
  define fl where "fl = \<lfloor>x\<rfloor>"
  define rem where "rem = x - of_int fl"
  have lo: "0 \<le> rem" and hi: "rem < 1"
    unfolding rem_def fl_def by linarith+
  have x: "x = of_int fl + rem"
    by (simp add: rem_def)
  consider (below) "rem * 2 < 1" | (above) "1 < rem * 2" | (tie) "rem * 2 = 1"
    by linarith
  then show ?thesis
  proof cases
    case below
    then have "round_half_even x = fl"
      by (simp add: round_half_even_def Let_def fl_def rem_def)
    with below lo show ?thesis
      by (simp add: nearest_ties_even_def x)
  next
    case above
    then have "round_half_even x = fl + 1"
      by (simp add: round_half_even_def Let_def fl_def rem_def)
    with above hi show ?thesis
      by (simp add: nearest_ties_even_def x)
  next
    case tie
    show ?thesis
    proof (cases "even fl")
      case True
      with tie have "round_half_even x = fl"
        by (simp add: round_half_even_def Let_def fl_def rem_def even_iff_mod_2_eq_zero)
      with tie True lo show ?thesis
        by (simp add: nearest_ties_even_def x)
    next
      case False
      with tie have "round_half_even x = fl + 1"
        by (simp add: round_half_even_def Let_def fl_def rem_def even_iff_mod_2_eq_zero)
      with tie False hi show ?thesis
        by (simp add: nearest_ties_even_def x)
    qed
  qed
qed

lemma nearest_ties_even_unique:
  assumes "nearest_ties_even x r" and "nearest_ties_even x s"
  shows "r = s"
proof (rule ccontr)
  assume ne: "r \<noteq> s"
  define a where "a = \<bar>of_int r - x\<bar>"
  define b where "b = \<bar>of_int s - x\<bar>"
  have ra: "a < 1 / 2 \<or> (a = 1 / 2 \<and> even r)"
    and sb: "b < 1 / 2 \<or> (b = 1 / 2 \<and> even s)"
    using assms by (simp_all add: nearest_ties_even_def a_def b_def)
  have tri: "\<bar>(of_int r :: rat) - of_int s\<bar> \<le> a + b"
    unfolding a_def b_def by linarith
  have "\<bar>(of_int r :: rat) - of_int s\<bar> = of_int \<bar>r - s\<bar>"
    by simp
  moreover from ne have "1 \<le> \<bar>r - s\<bar>"
    by linarith
  then have "(1 :: rat) \<le> of_int \<bar>r - s\<bar>"
    by (metis of_int_1_le_iff)
  ultimately have far: "1 \<le> a + b"
    using tri by linarith
  from ra sb far have ties: "a = 1 / 2 \<and> b = 1 / 2"
    by linarith
  with ra sb have ev: "even r \<and> even s"
    by linarith
  from ties far tri have "\<bar>(of_int r :: rat) - of_int s\<bar> \<le> 1"
    by linarith
  then have "\<bar>(of_int (r - s) :: rat)\<bar> \<le> 1"
    by simp
  then have "\<bar>r - s\<bar> \<le> 1"
    by (metis of_int_abs of_int_le_1_iff)
  with ne ev show False
    by presburger
qed

lemma nearest_ties_even_iff: "nearest_ties_even x r \<longleftrightarrow> r = round_half_even x"
  using round_half_even_nearest nearest_ties_even_unique by blast

subsection \<open>Rounding to a double\<close>

lemma round_half_even_ge_floor: "\<lfloor>x\<rfloor> \<le> round_half_even x"
  by (simp add: round_half_even_def Let_def)

lemma round_half_even_lower:
  assumes "of_int N \<le> x"
  shows "N \<le> round_half_even x"
proof -
  from assms have "N \<le> \<lfloor>x\<rfloor>"
    by (simp add: le_floor_iff)
  with round_half_even_ge_floor [of x] show ?thesis
    by linarith
qed

lemma round_half_even_nonneg: "0 \<le> x \<Longrightarrow> 0 \<le> round_half_even x"
  using round_half_even_lower [of 0 x] by simp

lemma round_half_even_upper: "of_int (round_half_even x) \<le> x + 1 / 2"
proof -
  define fl where "fl = \<lfloor>x\<rfloor>"
  have "of_int fl \<le> x"
    by (simp add: fl_def)
  then show ?thesis
    by (auto simp: round_half_even_def Let_def simp flip: fl_def)
qed

lemma bexp_le:
  assumes "0 < a"
  shows "2 powi (bexp a) \<le> a"
proof -
  obtain p q where pq: "quotient_of a = (p, q)"
    by (cases "quotient_of a")
  then have q: "0 < q" and a: "a = of_int p / of_int q"
    by (simp_all add: quotient_of_denom_pos quotient_of_div)
  with assms have p: "0 < p"
    by (simp add: zero_less_divide_iff)
  define d where "d = bitlen p - bitlen q"
  show ?thesis
  proof (cases "2 powi d \<le> a")
    case True
    then show ?thesis
      by (simp add: bexp_def pq d_def)
  next
    case False
    then have b: "bexp a = d - 1"
      by (simp add: bexp_def pq d_def)
    from p have bp: "1 \<le> bitlen p"
      by (simp add: bitlen_alt_def)
    from bitlen_bounds [OF p] have "(2::int) ^ nat (bitlen p - 1) \<le> p"
      by simp
    then have "(of_int ((2::int) ^ nat (bitlen p - 1)) :: rat) \<le> of_int p"
      by (rule of_int_le_iff [THEN iffD2])
    then have lo: "(2::rat) powi (bitlen p - 1) \<le> of_int p"
      using bp by (simp add: power_int_def)
    from bitlen_bounds [OF q] have "q < (2::int) ^ nat (bitlen q)"
      by simp
    then have "(of_int q :: rat) < of_int ((2::int) ^ nat (bitlen q))"
      by (rule of_int_less_iff [THEN iffD2])
    then have hi: "(of_int q :: rat) \<le> 2 powi (bitlen q)"
      using bitlen_nonneg [of q] by (simp add: power_int_def)
    have "(2::rat) powi (d - 1) = 2 powi (bitlen p - 1) / 2 powi (bitlen q)"
      by (simp add: d_def power_int_diff)
    also have "\<dots> \<le> of_int p / 2 powi (bitlen q)"
      using lo by (simp add: divide_right_mono)
    also have "\<dots> \<le> of_int p / of_int q"
      using hi p q by (simp add: divide_left_mono)
    finally have "(2::rat) powi (d - 1) \<le> a"
      by (simp only: a)
    then show ?thesis
      by (simp only: b)
  qed
qed

lemma bexp_gt:
  assumes "0 < a"
  shows "a < 2 powi (bexp a + 1)"
proof -
  obtain p q where pq: "quotient_of a = (p, q)"
    by (cases "quotient_of a")
  then have q: "0 < q" and a: "a = of_int p / of_int q"
    by (simp_all add: quotient_of_denom_pos quotient_of_div)
  with assms have p: "0 < p"
    by (simp add: zero_less_divide_iff)
  define d where "d = bitlen p - bitlen q"
  show ?thesis
  proof (cases "2 powi d \<le> a")
    case True
    then have b: "bexp a = d"
      by (simp add: bexp_def pq d_def)
    from q have bq: "1 \<le> bitlen q"
      by (simp add: bitlen_alt_def)
    from bitlen_bounds [OF p] have "p < (2::int) ^ nat (bitlen p)"
      by simp
    then have "(of_int p :: rat) < of_int ((2::int) ^ nat (bitlen p))"
      by (rule of_int_less_iff [THEN iffD2])
    then have hi: "(of_int p :: rat) < 2 powi (bitlen p)"
      using bitlen_nonneg [of p] by (simp add: power_int_def)
    from bitlen_bounds [OF q] have "(2::int) ^ nat (bitlen q - 1) \<le> q"
      by simp
    then have "(of_int ((2::int) ^ nat (bitlen q - 1)) :: rat) \<le> of_int q"
      by (rule of_int_le_iff [THEN iffD2])
    then have lo: "(2::rat) powi (bitlen q - 1) \<le> of_int q"
      using bq by (simp add: power_int_def)
    have "of_int p / of_int q < 2 powi (bitlen p) / (of_int q :: rat)"
      using hi q by (simp add: divide_strict_right_mono)
    also have "\<dots> \<le> 2 powi (bitlen p) / 2 powi (bitlen q - 1)"
      using lo by (intro divide_left_mono) (simp_all add: zero_less_power_int q)
    also have "\<dots> = (2::rat) powi (bitlen p - (bitlen q - 1))"
      by (simp flip: power_int_diff)
    also have "bitlen p - (bitlen q - 1) = d + 1"
      by (simp add: d_def)
    finally have "a < 2 powi (d + 1)"
      by (simp only: a)
    then show ?thesis
      by (simp only: b)
  next
    case False
    then have "bexp a = d - 1"
      by (simp add: bexp_def pq d_def)
    with False show ?thesis
      by simp
  qed
qed

text \<open>
  With \<open>bexp_le\<close>: \<open>bexp a\<close> is the binary exponent of a positive \<open>a\<close>, that is
  \<open>2 powi bexp a \<le> a < 2 powi (bexp a + 1)\<close>.
\<close>

lemma ulp_pos: "0 < (2::rat) powi e"
  by (simp add: zero_less_power_int)

lemma round_mag_nonneg:
  assumes "0 \<le> a"
  shows "0 \<le> round_mag a"
proof -
  have "0 \<le> a / 2 powi (max (bexp a) (- 1022) - 52)"
    using assms ulp_pos by (simp add: divide_nonneg_pos)
  then have "0 \<le> round_half_even (a / 2 powi (max (bexp a) (- 1022) - 52))"
    by (rule round_half_even_nonneg)
  then show ?thesis
    using ulp_pos by (simp add: round_mag_def Let_def less_imp_le)
qed

text \<open>The rounded magnitude is within half a spacing of the magnitude.\<close>

lemma round_mag_error:
  "\<bar>round_mag a - a\<bar> \<le> 2 powi (max (bexp a) (- 1022) - 52) / 2"
proof -
  define ulp :: rat where "ulp = 2 powi (max (bexp a) (- 1022) - 52)"
  define r where "r = round_half_even (a / ulp)"
  have ulp: "0 < ulp"
    by (simp add: ulp_def ulp_pos)
  have "\<bar>of_int r - a / ulp\<bar> \<le> 1 / 2"
    using round_half_even_nearest [of "a / ulp"] by (auto simp: nearest_ties_even_def r_def)
  then have "\<bar>of_int r - a / ulp\<bar> * ulp \<le> 1 / 2 * ulp"
    using ulp by (simp only: mult_le_cancel_right_pos)
  moreover have "\<bar>of_int r - a / ulp\<bar> * ulp = \<bar>of_int r * ulp - a\<bar>"
  proof -
    have "\<bar>of_int r - a / ulp\<bar> * ulp = \<bar>(of_int r - a / ulp) * ulp\<bar>"
      using ulp by (simp add: abs_mult)
    also have "(of_int r - a / ulp) * ulp = of_int r * ulp - a"
      using ulp by (simp add: algebra_simps)
    finally show ?thesis .
  qed
  ultimately have "\<bar>of_int r * ulp - a\<bar> \<le> ulp / 2"
    by simp
  then show ?thesis
    by (simp add: round_mag_def Let_def ulp_def r_def)
qed

lemma bexp_0: "bexp 0 = - 2"
  by code_simp

lemma round_mag_0: "round_mag 0 = 0"
  by (simp add: round_mag_def Let_def round_half_even_def)

lemma round_double_cases:
  "round_double x =
     (if 2 ^ 1024 \<le> round_mag \<bar>x\<bar> then (if x < 0 then NegInf else PosInf)
      else Finite (if x < 0 then - round_mag \<bar>x\<bar> else round_mag \<bar>x\<bar>))"
  by (simp add: round_double_def Let_def)

lemma round_double_nonneg:
  assumes "0 \<le> x"
  shows "round_double x = PosInf \<or> (\<exists>q\<ge>0. round_double x = Finite q)"
  using assms round_mag_nonneg [of "\<bar>x\<bar>"] by (simp add: round_double_cases)

lemma round_double_nonpos:
  assumes "x \<le> 0"
  shows "round_double x = NegInf \<or> (\<exists>q\<le>0. round_double x = Finite q)"
proof (cases "x = 0")
  case True
  then show ?thesis
    by (simp add: round_double_cases round_mag_0)
next
  case False
  with assms round_mag_nonneg [of "\<bar>x\<bar>"] show ?thesis
    by (simp add: round_double_cases)
qed

lemma round_mag_overflow:
  assumes "2 ^ 1024 \<le> a"
  shows "2 ^ 1024 \<le> round_mag a"
proof -
  from assms have pos: "0 < a"
    by (rule less_le_trans [rotated]) simp
  define e where "e = max (bexp a) (- 1022)"
  define ulp :: rat where "ulp = 2 powi (e - 52)"
  have ulp: "0 < ulp"
    by (simp add: ulp_def ulp_pos)
  have y: "round_mag a = of_int (round_half_even (a / ulp)) * ulp"
    by (simp add: round_mag_def Let_def e_def ulp_def)
  show ?thesis
  proof (cases "e \<le> 1076")
    case True
    define N :: int where "N = 2 ^ nat (1076 - e)"
    have "(2::rat) ^ 1024 = 2 powi 1024"
      by simp
    also have "\<dots> = 2 powi (1076 - e) * 2 powi (e - 52)"
      by (simp flip: power_int_add)
    also have "\<dots> = of_int N * ulp"
      using True by (simp add: N_def ulp_def power_int_def)
    finally have top: "(2::rat) ^ 1024 = of_int N * ulp" .
    with assms ulp have "of_int N \<le> a / ulp"
      by (simp add: pos_le_divide_eq)
    then have "N \<le> round_half_even (a / ulp)"
      by (rule round_half_even_lower)
    then have "of_int N * ulp \<le> of_int (round_half_even (a / ulp)) * ulp"
      using ulp by simp
    then show ?thesis
      by (simp only: top y)
  next
    case False
    then have e: "e = bexp a" and big: "1024 \<le> e"
      by (simp_all add: e_def max_def split: if_splits)
    define N :: int where "N = 2 ^ 52"
    have N: "(of_int N :: rat) = 2 powi 52"
      by (simp add: N_def)
    have "(2::rat) powi (52 + (e - 52)) = 2 powi 52 * 2 powi (e - 52)"
      by (rule power_int_add) simp
    then have split: "(2::rat) powi 52 * ulp = 2 powi e"
      by (simp only: ulp_def add_diff_cancel_left' add.commute [of 52] diff_add_cancel)
    also have "\<dots> \<le> a"
      using bexp_le [OF pos] by (simp add: e)
    finally have "of_int N \<le> a / ulp"
      using ulp by (simp only: N pos_le_divide_eq)
    then have "N \<le> round_half_even (a / ulp)"
      by (rule round_half_even_lower)
    then have "(of_int N :: rat) \<le> of_int (round_half_even (a / ulp))"
      by (rule of_int_le_iff [THEN iffD2])
    then have "of_int N * ulp \<le> of_int (round_half_even (a / ulp)) * ulp"
      using ulp by (simp only: mult_le_cancel_right_pos)
    moreover have "(2::rat) powi 1024 \<le> 2 powi e"
      using big by (intro power_int_increasing) simp_all
    then have "(2::rat) ^ 1024 \<le> 2 powi e"
      by simp
    ultimately show ?thesis
      by (simp only: y N split)
  qed
qed

lemma round_double_overflow:
  assumes "2 ^ 1024 \<le> \<bar>x\<bar>"
  shows "round_double x = (if x < 0 then NegInf else PosInf)"
  using round_mag_overflow [OF assms] by (simp add: round_double_cases)

lemma round_mag_small:
  assumes "0 \<le> a" and "a < 2 ^ 1023"
  shows "round_mag a < 2 ^ 1024"
proof -
  define e where "e = max (bexp a) (- 1022)"
  define ulp :: rat where "ulp = 2 powi (e - 52)"
  have ulp: "0 < ulp"
    by (simp add: ulp_def ulp_pos)
  have y: "round_mag a = of_int (round_half_even (a / ulp)) * ulp"
    by (simp add: round_mag_def Let_def e_def ulp_def)
  have "e < 1023"
  proof (cases "0 < a")
    case True
    have "(2::rat) powi (bexp a) \<le> a"
      using True by (rule bexp_le)
    also have "a < 2 powi 1023"
      using assms by simp
    finally have "(2::rat) powi (bexp a) < 2 powi 1023" .
    then have "bexp a < 1023"
      by (rule power_int_le_imp_less_exp [rotated]) simp_all
    then show ?thesis
      by (simp add: e_def)
  next
    case False
    with assms have "a = 0"
      by simp
    then show ?thesis
      by (simp add: e_def bexp_0)
  qed
  then have "e - 52 \<le> 970"
    by simp
  then have "ulp \<le> 2 powi 970"
    unfolding ulp_def by (intro power_int_increasing) simp_all
  then have u: "ulp \<le> 2 ^ 970"
    by simp
  have "of_int (round_half_even (a / ulp)) \<le> a / ulp + 1 / 2"
    by (rule round_half_even_upper)
  then have "of_int (round_half_even (a / ulp)) * ulp \<le> (a / ulp + 1 / 2) * ulp"
    using ulp by (simp only: mult_le_cancel_right_pos)
  also have "\<dots> = a + ulp / 2"
    using ulp by (simp add: algebra_simps)
  also have "\<dots> < 2 ^ 1023 + 2 ^ 970"
  proof -
    define c :: rat where "c = 2 ^ 970"
    have "0 < c"
      by (simp add: c_def)
    with u ulp have "ulp / 2 < c"
      by (simp add: c_def)
    with assms show ?thesis
      by (simp add: c_def add_strict_mono)
  qed
  also have "\<dots> < (2::rat) ^ 1024"
    by simp
  finally show ?thesis
    by (simp only: y)
qed

lemma int_to_double_ok:
  assumes "0 \<le> k" and "k < 2 ^ 1023"
  shows "\<exists>a\<ge>0. int_to_double k = Inr a"
proof -
  from assms have "(of_int k :: rat) < of_int (2 ^ 1023)"
    by (simp only: of_int_less_iff)
  with assms have "round_mag \<bar>of_int k\<bar> < 2 ^ 1024"
    by (intro round_mag_small) simp_all
  moreover have "0 \<le> round_mag \<bar>of_int k\<bar>"
    by (rule round_mag_nonneg) simp
  ultimately show ?thesis
    using assms by (simp add: int_to_double_def round_double_cases)
qed

lemma round_double_FiniteI:
  assumes "round_mag \<bar>x\<bar> = y" and "y < 2 ^ 1024"
  shows "round_double x = Finite (if x < 0 then - y else y)"
proof -
  from assms(2) have "\<not> 2 ^ 1024 \<le> y"
    by (simp only: not_le)
  then show ?thesis
    unfolding round_double_cases assms(1) by (simp only: if_False)
qed

subsection \<open>The constructor and the seven queries on its result\<close>

lemma requests_init: "requests (Results_init t rs) = sort_key request_time rs"
  by (simp add: Results_init_def)

lemma total_time_init: "total_time (Results_init t rs) = t"
  by (simp add: Results_init_def)

lemma sort_key_Nil_iff: "sort_key f xs = [] \<longleftrightarrow> xs = []"
  by (metis length_0_conv length_sort)

lemma sum_list_sort_key: "sum_list (map f (sort_key f xs)) = sum_list (map f xs)"
  for f :: "'a \<Rightarrow> rat"
proof -
  have "mset (map f (sort_key f xs)) = mset (map f xs)"
    by simp
  then show ?thesis
    by (metis sum_mset_sum_list)
qed

lemma length_filter_sort_key: "length (filter P (sort_key f xs)) = length (filter P xs)"
proof -
  have "mset (filter P (sort_key f xs)) = mset (filter P xs)"
    by simp
  then show ?thesis
    by (metis size_mset)
qed

lemma slowest_init:
  assumes "rs \<noteq> []"
  shows "slowest (Results_init t rs) = Inr (Max (request_time ` set rs))"
proof -
  let ?xs = "sort_key request_time rs"
  from assms have ne: "?xs \<noteq> []"
    by (simp add: sort_key_Nil_iff)
  have "last (map request_time ?xs) = Max (set (map request_time ?xs))"
    using ne by (intro sorted_last_Max) (simp_all add: sorted_sort_key)
  with ne have "request_time (last ?xs) = Max (request_time ` set rs)"
    by (simp add: last_map)
  with ne show ?thesis
    by (simp add: slowest_def requests_init getitem_last)
qed

lemma fastest_init:
  assumes "rs \<noteq> []"
  shows "fastest (Results_init t rs) = Inr (Min (request_time ` set rs))"
proof -
  let ?xs = "sort_key request_time rs"
  from assms have ne: "?xs \<noteq> []"
    by (simp add: sort_key_Nil_iff)
  have "hd (map request_time ?xs) = Min (set (map request_time ?xs))"
    using ne by (intro sorted_hd_Min) (simp_all add: sorted_sort_key)
  with ne have "request_time (hd ?xs) = Min (request_time ` set rs)"
    by (simp add: hd_map)
  with ne show ?thesis
    by (simp add: fastest_def requests_init getitem_first)
qed

lemma slowest_Nil: "slowest (Results_init t []) = Inl IndexError"
  by (simp add: slowest_def requests_init getitem_Nil)

lemma fastest_Nil: "fastest (Results_init t []) = Inl IndexError"
  by (simp add: fastest_def requests_init getitem_Nil)

lemma average_time_init:
  "average_time (Results_init t rs) =
     (if rs = [] then Inl StatisticsError
      else Inr (sum_list (map request_time rs) / of_nat (length rs)))"
  by (simp add: average_time_def requests_init mean_def sum_list_sort_key sort_key_Nil_iff
      less_Suc0 flip: One_nat_def)

lemma requests_total_time_init:
  "requests_total_time (Results_init t rs) = Inr (sum_list (map request_time rs))"
  by (simp add: requests_total_time_def requests_init py_sum_eq sum_list_sort_key)

lemma successful_requests_init:
  "successful_requests (Results_init t rs) =
     Inr (int (length (filter (\<lambda>r. in_range (status_code r) 200 299) rs)))"
  by (simp add: successful_requests_def requests_init length_filter_sort_key)

lemma requests_per_minute_init:
  "requests_per_minute (Results_init t rs) =
     (case truediv (60 * int (length rs)) t of Inl e \<Rightarrow> Inl e | Inr q \<Rightarrow> py_round q)"
  by (simp add: requests_per_minute_def requests_init total_time_init)

lemma requests_per_second_init:
  "requests_per_second (Results_init t rs) =
     (case truediv (int (length rs)) t of Inl e \<Rightarrow> Inl e | Inr q \<Rightarrow> py_round q)"
  by (simp add: requests_per_second_def requests_init total_time_init)

lemma sum_list_lower: "(\<And>x. x \<in> set xs \<Longrightarrow> lo \<le> x) \<Longrightarrow> of_nat (length xs) * lo \<le> sum_list xs"
  for lo :: rat
proof (induction xs)
  case Nil
  then show ?case by simp
next
  case (Cons x xs)
  then have "lo \<le> x" and "of_nat (length xs) * lo \<le> sum_list xs"
    by simp_all
  then show ?case
    by (simp add: algebra_simps)
qed

lemma sum_list_upper: "(\<And>x. x \<in> set xs \<Longrightarrow> x \<le> hi) \<Longrightarrow> sum_list xs \<le> of_nat (length xs) * hi"
  for hi :: rat
proof (induction xs)
  case Nil
  then show ?case by simp
next
  case (Cons x xs)
  then have "x \<le> hi" and "sum_list xs \<le> of_nat (length xs) * hi"
    by simp_all
  then show ?case
    by (simp add: algebra_simps)
qed

lemma round_half_even_nonpos:
  assumes "x \<le> 0"
  shows "round_half_even x \<le> 0"
proof -
  have "\<bar>of_int (round_half_even x) - x\<bar> \<le> 1 / 2"
    using round_half_even_nearest [of x] by (auto simp: nearest_ties_even_def)
  with assms have "(of_int (round_half_even x) :: rat) < 1"
    by linarith
  then show ?thesis
    by simp
qed

subsection \<open>The float quotient of the throughput methods\<close>

text \<open>
  A list has at most \<^verbatim>\<open>sys.maxsize\<close> elements, which is below \<open>2 ^ 63\<close>; neither
  its length nor sixty times its length is too large for a double.
\<close>

lemma length_to_double:
  assumes "length rs < 2 ^ 63"
  shows "\<exists>a\<ge>0. int_to_double (int (length rs)) = Inr a"
    and "\<exists>a\<ge>0. int_to_double (60 * int (length rs)) = Inr a"
proof -
  from assms have "int (length rs) < int (2 ^ 63)"
    by (simp only: of_nat_less_iff)
  then have "int (length rs) < 2 ^ 63"
    by simp
  then have "int (length rs) < 2 ^ 1023" and "60 * int (length rs) < 2 ^ 1023"
    by simp_all
  then show "\<exists>a\<ge>0. int_to_double (int (length rs)) = Inr a"
    and "\<exists>a\<ge>0. int_to_double (60 * int (length rs)) = Inr a"
    by (simp_all add: int_to_double_ok)
qed

lemma truediv_zero:
  assumes "int_to_double k = Inr a"
  shows "truediv k 0 = Inl ZeroDivisionError"
  using assms by (simp add: truediv_def)

lemma truediv_pos:
  assumes "int_to_double k = Inr a" and "0 \<le> a" and "0 < t"
  shows "(\<exists>q\<ge>0. truediv k t = Inr (Finite q)) \<or> truediv k t = Inr PosInf"
proof -
  from assms have "0 \<le> a / t"
    by simp
  then have "round_double (a / t) = PosInf \<or> (\<exists>q\<ge>0. round_double (a / t) = Finite q)"
    by (rule round_double_nonneg)
  with assms show ?thesis
    by (auto simp: truediv_def)
qed

lemma truediv_neg:
  assumes "int_to_double k = Inr a" and "0 \<le> a" and "t < 0"
  shows "(\<exists>q\<le>0. truediv k t = Inr (Finite q)) \<or> truediv k t = Inr NegInf"
proof -
  from assms have "a / t \<le> 0"
    by (simp add: divide_nonneg_neg)
  then have "round_double (a / t) = NegInf \<or> (\<exists>q\<le>0. round_double (a / t) = Finite q)"
    by (rule round_double_nonpos)
  with assms show ?thesis
    by (auto simp: truediv_def)
qed

text \<open>Evaluating the float quotient at given operands.\<close>

lemma int_to_double_exact:
  assumes "round_mag (of_int k) = of_int k" and "0 \<le> k" and "k < 2 ^ 1024"
  shows "int_to_double k = Inr (of_int k)"
proof -
  from assms(3) have "(of_int k :: rat) < of_int (2 ^ 1024)"
    by (simp only: of_int_less_iff)
  then have "(of_int k :: rat) < 2 ^ 1024"
    by simp
  with assms(1,2) have "round_double (of_int k) = Finite (of_int k)"
    using round_double_FiniteI [of "of_int k" "of_int k"] by simp
  then show ?thesis
    by (simp add: int_to_double_def)
qed

lemma truediv_FiniteI:
  assumes "int_to_double k = Inr a" and "b \<noteq> 0"
    and "round_mag \<bar>a / b\<bar> = y" and "y < 2 ^ 1024"
  shows "truediv k b = Inr (Finite (if a / b < 0 then - y else y))"
  using assms(1,2) round_double_FiniteI [OF assms(3,4)] by (simp add: truediv_def)

lemma truediv_overflow:
  assumes "int_to_double k = Inr a" and "b \<noteq> 0" and "2 ^ 1024 \<le> \<bar>a / b\<bar>"
  shows "truediv k b = Inr (if a / b < 0 then NegInf else PosInf)"
  using assms(1,2) round_double_overflow [OF assms(3)] by (simp add: truediv_def)

lemma int_to_double_1: "int_to_double 1 = Inr 1"
proof -
  have "round_mag (of_int 1) = of_int 1"
    by code_simp
  then show ?thesis
    using int_to_double_exact [of 1] by simp
qed

lemma int_to_double_3: "int_to_double 3 = Inr 3"
proof -
  have "round_mag (of_int 3) = of_int 3"
    by code_simp
  then show ?thesis
    using int_to_double_exact [of 3] by simp
qed

lemma int_to_double_4: "int_to_double 4 = Inr 4"
proof -
  have "round_mag (of_int 4) = of_int 4"
    by code_simp
  then show ?thesis
    using int_to_double_exact [of 4] by simp
qed

lemma int_to_double_60: "int_to_double 60 = Inr 60"
proof -
  have "round_mag (of_int 60) = of_int 60"
    by code_simp
  then show ?thesis
    using int_to_double_exact [of 60] by simp
qed

lemma int_to_double_180: "int_to_double 180 = Inr 180"
proof -
  have "round_mag (of_int 180) = of_int 180"
    by code_simp
  then show ?thesis
    using int_to_double_exact [of 180] by simp
qed

lemma requests_per_minute_FiniteI:
  assumes "truediv (60 * int (length rs)) t = Inr (Finite q)"
  shows "requests_per_minute (Results_init t rs) = Inr (round_half_even q)"
  by (simp add: requests_per_minute_init assms py_round_def)

lemma requests_per_second_FiniteI:
  assumes "truediv (int (length rs)) t = Inr (Finite q)"
  shows "requests_per_second (Results_init t rs) = Inr (round_half_even q)"
  by (simp add: requests_per_second_init assms py_round_def)

lemma requests_per_minute_infinite:
  assumes "truediv (60 * int (length rs)) t = Inr PosInf \<or>
    truediv (60 * int (length rs)) t = Inr NegInf"
  shows "requests_per_minute (Results_init t rs) = Inl OverflowError"
  using assms by (auto simp: requests_per_minute_init py_round_def)

lemma requests_per_second_infinite:
  assumes "truediv (int (length rs)) t = Inr PosInf \<or>
    truediv (int (length rs)) t = Inr NegInf"
  shows "requests_per_second (Results_init t rs) = Inl OverflowError"
  using assms by (auto simp: requests_per_second_init py_round_def)

subsection \<open>The model on the doctests\<close>

text \<open>
  The model returns what the docstrings show: \<^verbatim>\<open>6.1\<close>, \<^verbatim>\<open>1.04\<close>,
  \<^verbatim>\<open>3.513333333333333\<close> (\<open>527 / 150\<close> before its rounding to a double), \<^verbatim>\<open>10.54\<close>, \<^verbatim>\<open>2\<close>,
  \<^verbatim>\<open>17\<close> and \<^verbatim>\<open>1\<close>.
\<close>

lemma truediv_180_doctest:
  "truediv 180 (53 / 5) = Inr (Finite (2389881877731985 / 140737488355328))"
proof -
  have "round_mag \<bar>180 / (53 / 5)\<bar> = 2389881877731985 / 140737488355328"
    by code_simp
  from truediv_FiniteI [OF int_to_double_180 _ this] show ?thesis
    by simp
qed

lemma truediv_3_doctest:
  "truediv 3 (53 / 5) = Inr (Finite (5098414672494901 / 18014398509481984))"
proof -
  have "round_mag \<bar>3 / (53 / 5)\<bar> = 5098414672494901 / 18014398509481984"
    by code_simp
  from truediv_FiniteI [OF int_to_double_3 _ this] show ?thesis
    by simp
qed

lemma truediv_4_doctest:
  "truediv 4 (7 / 2) = Inr (Finite (2573485501354569 / 2251799813685248))"
proof -
  have "round_mag \<bar>4 / (7 / 2)\<bar> = 2573485501354569 / 2251799813685248"
    by code_simp
  from truediv_FiniteI [OF int_to_double_4 _ this] show ?thesis
    by simp
qed

lemma doctest_throughput:
  "requests_per_minute (Results_init (53 / 5) doctest_requests) = Inr 17 \<and>
   requests_per_second (Results_init (53 / 5) doctest_requests) = Inr 0 \<and>
   requests_per_second (Results_init (7 / 2) doctest_requests4) = Inr 1"
proof -
  have len: "int (length doctest_requests) = 3" "int (length doctest_requests4) = 4"
    by (simp_all add: doctest_requests_def doctest_requests4_def)
  have r: "round_half_even (2389881877731985 / 140737488355328) = 17"
    "round_half_even (5098414672494901 / 18014398509481984) = 0"
    "round_half_even (2573485501354569 / 2251799813685248) = 1"
    by code_simp+
  have "truediv (60 * int (length doctest_requests)) (53 / 5) =
      Inr (Finite (2389881877731985 / 140737488355328))"
    by (simp add: len truediv_180_doctest)
  then have "requests_per_minute (Results_init (53 / 5) doctest_requests) = Inr 17"
    by (simp only: requests_per_minute_FiniteI r)
  moreover have "truediv (int (length doctest_requests)) (53 / 5) =
      Inr (Finite (5098414672494901 / 18014398509481984))"
    by (simp add: len truediv_3_doctest)
  then have "requests_per_second (Results_init (53 / 5) doctest_requests) = Inr 0"
    by (simp only: requests_per_second_FiniteI r)
  moreover have "truediv (int (length doctest_requests4)) (7 / 2) =
      Inr (Finite (2573485501354569 / 2251799813685248))"
    by (simp add: len truediv_4_doctest)
  then have "requests_per_second (Results_init (7 / 2) doctest_requests4) = Inr 1"
    by (simp only: requests_per_second_FiniteI r)
  ultimately show ?thesis
    by (intro conjI)
qed

lemma doctest_values:
  "slowest (Results_init (53 / 5) doctest_requests) = Inr (61 / 10) \<and>
   fastest (Results_init (53 / 5) doctest_requests) = Inr (26 / 25) \<and>
   average_time (Results_init (53 / 5) doctest_requests) = Inr (527 / 150) \<and>
   requests_total_time (Results_init (53 / 5) doctest_requests) = Inr (527 / 50) \<and>
   successful_requests (Results_init (53 / 5) doctest_requests) = Inr 2"
  by code_simp

subsection \<open>The float quotient at a tie\<close>

text \<open>
  The quotient is rounded to a double before \<^verbatim>\<open>round\<close> sees it. With one request and
  \<^verbatim>\<open>total_time = 0.39999999999999997\<close> (the double \<open>7205759403792793 / 2 ^ 54\<close>) the exact
  quotient lies just above \<open>5 / 2\<close>, the float quotient is \<open>5 / 2\<close>, and
  \<^verbatim>\<open>requests_per_second()\<close> is \<open>2\<close>, not \<open>3\<close>. Likewise \<^verbatim>\<open>60 / 4.8\<close> is \<open>25 / 2\<close> and gives
  \<open>12\<close>, and \<^verbatim>\<open>60 / 13.333333333333332\<close> is \<open>9 / 2\<close> and gives \<open>4\<close>.
\<close>

lemma truediv_1_tie:
  "truediv 1 (7205759403792793 / 18014398509481984) = Inr (Finite (5 / 2))"
proof -
  have "round_mag \<bar>1 / (7205759403792793 / 18014398509481984)\<bar> = 5 / 2"
    by code_simp
  from truediv_FiniteI [OF int_to_double_1 _ this] show ?thesis
    by simp
qed

lemma truediv_60_tie:
  "truediv 60 (7205759403792793 / 18014398509481984) = Inr (Finite 150)"
proof -
  have "round_mag \<bar>60 / (7205759403792793 / 18014398509481984)\<bar> = 150"
    by code_simp
  from truediv_FiniteI [OF int_to_double_60 _ this] show ?thesis
    by simp
qed

lemma truediv_1_neg_tie:
  "truediv 1 (- (7205759403792793 / 18014398509481984)) = Inr (Finite (- (5 / 2)))"
proof -
  have "round_mag \<bar>1 / (- (7205759403792793 / 18014398509481984))\<bar> = 5 / 2"
    by code_simp
  from truediv_FiniteI [OF int_to_double_1 _ this] show ?thesis
    by simp
qed

lemma truediv_60_neg_tie:
  "truediv 60 (- (7205759403792793 / 18014398509481984)) = Inr (Finite (- 150))"
proof -
  have "round_mag \<bar>60 / (- (7205759403792793 / 18014398509481984))\<bar> = 150"
    by code_simp
  from truediv_FiniteI [OF int_to_double_60 _ this] show ?thesis
    by simp
qed

lemma truediv_60_ties:
  "truediv 60 (5404319552844595 / 1125899906842624) = Inr (Finite (25 / 2))"
  "truediv 60 (3752999689475413 / 281474976710656) = Inr (Finite (9 / 2))"
proof -
  have a: "round_mag \<bar>60 / (5404319552844595 / 1125899906842624)\<bar> = 25 / 2"
    and b: "round_mag \<bar>60 / (3752999689475413 / 281474976710656)\<bar> = 9 / 2"
    by code_simp+
  from truediv_FiniteI [OF int_to_double_60 _ a]
  show "truediv 60 (5404319552844595 / 1125899906842624) = Inr (Finite (25 / 2))"
    by simp
  from truediv_FiniteI [OF int_to_double_60 _ b]
  show "truediv 60 (3752999689475413 / 281474976710656) = Inr (Finite (9 / 2))"
    by simp
qed

lemma round_half_even_values:
  "round_half_even (5 / 2) = 2" "round_half_even (- (5 / 2)) = - 2"
  "round_half_even 150 = 150" "round_half_even (- 150) = - 150"
  "round_half_even (25 / 2) = 12" "round_half_even (9 / 2) = 4"
  by code_simp+

lemma float_quotient_ties:
  "requests_per_second (Results_init (7205759403792793 / 18014398509481984)
     [\<lparr>status_code = 200, request_time = 1\<rparr>]) = Inr 2 \<and>
   requests_per_minute (Results_init (5404319552844595 / 1125899906842624)
     [\<lparr>status_code = 200, request_time = 1\<rparr>]) = Inr 12 \<and>
   requests_per_minute (Results_init (3752999689475413 / 281474976710656)
     [\<lparr>status_code = 200, request_time = 1\<rparr>]) = Inr 4 \<and>
   requests_per_second (Results_init (- (7205759403792793 / 18014398509481984))
     [\<lparr>status_code = 200, request_time = 1\<rparr>]) = Inr (- 2)"
proof -
  let ?rs = "[\<lparr>status_code = 200, request_time = 1\<rparr>]"
  have "truediv (int (length ?rs)) (7205759403792793 / 18014398509481984) = Inr (Finite (5 / 2))"
    by (simp add: truediv_1_tie)
  then have "requests_per_second (Results_init (7205759403792793 / 18014398509481984) ?rs) =
      Inr 2"
    by (simp only: requests_per_second_FiniteI round_half_even_values)
  moreover have "truediv (60 * int (length ?rs)) (5404319552844595 / 1125899906842624) =
      Inr (Finite (25 / 2))"
    by (simp add: truediv_60_ties)
  then have "requests_per_minute (Results_init (5404319552844595 / 1125899906842624) ?rs) =
      Inr 12"
    by (simp only: requests_per_minute_FiniteI round_half_even_values)
  moreover have "truediv (60 * int (length ?rs)) (3752999689475413 / 281474976710656) =
      Inr (Finite (9 / 2))"
    by (simp add: truediv_60_ties)
  then have "requests_per_minute (Results_init (3752999689475413 / 281474976710656) ?rs) =
      Inr 4"
    by (simp only: requests_per_minute_FiniteI round_half_even_values)
  moreover have "truediv (int (length ?rs)) (- (7205759403792793 / 18014398509481984)) =
      Inr (Finite (- (5 / 2)))"
    by (simp add: truediv_1_neg_tie)
  then have "requests_per_second (Results_init (- (7205759403792793 / 18014398509481984)) ?rs) =
      Inr (- 2)"
    by (simp only: requests_per_second_FiniteI round_half_even_values)
  ultimately show ?thesis
    by (intro conjI)
qed

subsection \<open>The claims\<close>

text \<open>
  C1, as amended: on a \<^verbatim>\<open>Results\<close> built from an empty list, \<^verbatim>\<open>slowest()\<close> and
  \<^verbatim>\<open>fastest()\<close> raise \<^verbatim>\<open>IndexError\<close> and \<^verbatim>\<open>average_time()\<close> raises
  \<^verbatim>\<open>StatisticsError\<close>; \<^verbatim>\<open>requests_total_time()\<close> raises nothing and returns \<open>0\<close>.
\<close>

theorem empty_requests_queries:
  "slowest (Results_init t []) = Inl IndexError \<and>
   fastest (Results_init t []) = Inl IndexError \<and>
   average_time (Results_init t []) = Inl StatisticsError \<and>
   requests_total_time (Results_init t []) = Inr 0"
  by (simp add: slowest_Nil fastest_Nil average_time_init requests_total_time_init)

text \<open>
  C1 as stated fails: with no request at all, \<^verbatim>\<open>Results(10, []).requests_total_time()\<close>
  is a value, not an error.
\<close>

theorem empty_requests_total_time_is_value:
  "\<not> isl (requests_total_time (Results_init 10 [])) \<and>
   requests_total_time (Results_init 10 []) = Inr 0"
  by (simp add: requests_total_time_def Results_init_def py_sum_def)

text \<open>
  C2: \<^verbatim>\<open>successful_requests()\<close> is the number of requests given to the constructor whose
  status code lies in \<open>{200..298}\<close>. A request with status code 299 is not counted;
  one with status code 200 or 298 is.
\<close>

theorem successful_requests_count:
  "successful_requests (Results_init t rs) =
     Inr (int (length (filter (\<lambda>r. status_code r \<in> {200..298}) rs))) \<and>
   successful_requests (Results_init t (\<lparr>status_code = 299, request_time = x\<rparr> # rs)) =
     successful_requests (Results_init t rs) \<and>
   successful_requests (Results_init t (\<lparr>status_code = 200, request_time = x\<rparr> # rs)) =
     Inr (1 + int (length (filter (\<lambda>r. status_code r \<in> {200..298}) rs))) \<and>
   successful_requests (Results_init t (\<lparr>status_code = 298, request_time = x\<rparr> # rs)) =
     Inr (1 + int (length (filter (\<lambda>r. status_code r \<in> {200..298}) rs)))"
proof -
  have "in_range c 200 299 \<longleftrightarrow> c \<in> {200..298}" for c
    by (auto simp: in_range_def)
  then show ?thesis
    by (simp add: successful_requests_init)
qed

text \<open>
  C3, as amended: when \<^verbatim>\<open>total_time\<close> is \<open>0\<close>, \<^verbatim>\<open>requests_per_minute()\<close> and
  \<^verbatim>\<open>requests_per_second()\<close> raise \<^verbatim>\<open>ZeroDivisionError\<close>. (The list has fewer than
  \<open>2 ^ 63\<close> elements, as every Python list has.)
\<close>

theorem zero_total_time_raises:
  assumes "length rs < 2 ^ 63"
  shows "requests_per_minute (Results_init 0 rs) = Inl ZeroDivisionError \<and>
    requests_per_second (Results_init 0 rs) = Inl ZeroDivisionError"
proof -
  from length_to_double [OF assms] obtain a b
    where "int_to_double (int (length rs)) = Inr a"
      and "int_to_double (60 * int (length rs)) = Inr b"
    by blast
  then show ?thesis
    by (simp add: requests_per_minute_init requests_per_second_init truediv_zero)
qed

theorem zero_total_time_raises_witness:
  "length doctest_requests < 2 ^ 63 \<and>
   requests_per_minute (Results_init 0 doctest_requests) = Inl ZeroDivisionError \<and>
   requests_per_second (Results_init 0 doctest_requests) = Inl ZeroDivisionError"
proof -
  have len: "length doctest_requests < 2 ^ 63"
    by (simp add: doctest_requests_def)
  from zero_total_time_raises [OF len] len show ?thesis
    by (intro conjI) simp_all
qed

text \<open>
  C3 as stated fails at a negative \<^verbatim>\<open>total_time\<close>: \<^verbatim>\<open>Results(-1, [r])\<close> has
  \<open>- 1 \<le> 0\<close>, and both throughput queries return a value.
\<close>

theorem negative_total_time_is_value:
  "(- 1 :: rat) \<le> 0 \<and>
   requests_per_minute (Results_init (- 1) [\<lparr>status_code = 200, request_time = 1\<rparr>]) = Inr (- 60) \<and>
   requests_per_second (Results_init (- 1) [\<lparr>status_code = 200, request_time = 1\<rparr>]) = Inr (- 1)"
proof -
  let ?rs = "[\<lparr>status_code = 200, request_time = 1\<rparr>]"
  have m60: "round_mag \<bar>60 / (- 1)\<bar> = 60" and m1: "round_mag \<bar>1 / (- 1)\<bar> = 1"
    by code_simp+
  have r: "round_half_even (- 60) = - 60" "round_half_even (- 1) = - 1"
    by code_simp+
  from truediv_FiniteI [OF int_to_double_60 _ m60]
  have "truediv (60 * int (length ?rs)) (- 1) = Inr (Finite (- 60))"
    by simp
  then have "requests_per_minute (Results_init (- 1) ?rs) = Inr (- 60)"
    by (simp only: requests_per_minute_FiniteI r)
  moreover from truediv_FiniteI [OF int_to_double_1 _ m1]
  have "truediv (int (length ?rs)) (- 1) = Inr (Finite (- 1))"
    by simp
  then have "requests_per_second (Results_init (- 1) ?rs) = Inr (- 1)"
    by (simp only: requests_per_second_FiniteI r)
  ultimately show ?thesis
    by simp
qed

text \<open>
  C4, as amended: with \<open>n\<close> requests and \<^verbatim>\<open>total_time\<close> \<open>t > 0\<close>, when the float quotient
  \<^verbatim>\<open>60 * n / t\<close> is finite, \<^verbatim>\<open>requests_per_minute()\<close> is that double rounded to the nearest
  integer, ties to even, and when the quotient overflows to infinity it raises
  \<^verbatim>\<open>OverflowError\<close>; nothing else happens. The same holds of \<^verbatim>\<open>requests_per_second()\<close> and
  \<^verbatim>\<open>n / t\<close>. An integer is the round-half-to-even of \<open>x\<close> exactly when it is
  \<open>round_half_even x\<close>.
\<close>

theorem throughput_round_half_even:
  assumes "0 < t" and "length rs < 2 ^ 63"
  shows "((\<exists>q\<ge>0. truediv (60 * int (length rs)) t = Inr (Finite q) \<and>
        requests_per_minute (Results_init t rs) = Inr (round_half_even q)) \<or>
      (truediv (60 * int (length rs)) t = Inr PosInf \<and>
        requests_per_minute (Results_init t rs) = Inl OverflowError)) \<and>
    ((\<exists>q\<ge>0. truediv (int (length rs)) t = Inr (Finite q) \<and>
        requests_per_second (Results_init t rs) = Inr (round_half_even q)) \<or>
      (truediv (int (length rs)) t = Inr PosInf \<and>
        requests_per_second (Results_init t rs) = Inl OverflowError)) \<and>
    (\<forall>x r. nearest_ties_even x r \<longleftrightarrow> r = round_half_even x)"
proof -
  from length_to_double [OF assms(2)] obtain a b
    where a: "int_to_double (int (length rs)) = Inr a" "0 \<le> a"
      and b: "int_to_double (60 * int (length rs)) = Inr b" "0 \<le> b"
    by blast
  from truediv_pos [OF b assms(1)]
  have "(\<exists>q\<ge>0. truediv (60 * int (length rs)) t = Inr (Finite q) \<and>
        requests_per_minute (Results_init t rs) = Inr (round_half_even q)) \<or>
      (truediv (60 * int (length rs)) t = Inr PosInf \<and>
        requests_per_minute (Results_init t rs) = Inl OverflowError)"
    by (auto simp: requests_per_minute_FiniteI requests_per_minute_infinite)
  moreover from truediv_pos [OF a assms(1)]
  have "(\<exists>q\<ge>0. truediv (int (length rs)) t = Inr (Finite q) \<and>
        requests_per_second (Results_init t rs) = Inr (round_half_even q)) \<or>
      (truediv (int (length rs)) t = Inr PosInf \<and>
        requests_per_second (Results_init t rs) = Inl OverflowError)"
    by (auto simp: requests_per_second_FiniteI requests_per_second_infinite)
  ultimately show ?thesis
    by (simp only: nearest_ties_even_iff simp_thms)
qed

theorem throughput_round_half_even_witness:
  "(0 :: rat) < 7205759403792793 / 18014398509481984 \<and>
   length [\<lparr>status_code = 200, request_time = 1\<rparr>] < 2 ^ 63 \<and>
   requests_per_minute (Results_init (7205759403792793 / 18014398509481984)
     [\<lparr>status_code = 200, request_time = 1\<rparr>]) = Inr 150 \<and>
   requests_per_second (Results_init (7205759403792793 / 18014398509481984)
     [\<lparr>status_code = 200, request_time = 1\<rparr>]) = Inr 2 \<and>
   nearest_ties_even (5 / 2) 2 \<and> \<not> nearest_ties_even (5 / 2) 3"
proof -
  let ?rs = "[\<lparr>status_code = 200, request_time = 1\<rparr>]"
  let ?t = "7205759403792793 / 18014398509481984 :: rat"
  have pos: "0 < ?t"
    by simp
  have len: "length ?rs < 2 ^ 63"
    by simp
  have q60: "truediv (60 * int (length ?rs)) ?t = Inr (Finite 150)"
    by (simp add: truediv_60_tie)
  have q1: "truediv (int (length ?rs)) ?t = Inr (Finite (5 / 2))"
    by (simp add: truediv_1_tie)
  have ties: "nearest_ties_even (5 / 2) 2 \<and> \<not> nearest_ties_even (5 / 2) 3"
    by code_simp
  note cases = throughput_round_half_even [OF pos len]
  from cases have "requests_per_minute (Results_init ?t ?rs) = Inr (round_half_even 150)"
    by (elim conjE disjE exE) (simp_all only: q60 sum.inject pyfloat.inject pyfloat.distinct)
  moreover
  from cases have "requests_per_second (Results_init ?t ?rs) = Inr (round_half_even (5 / 2))"
    by (elim conjE disjE exE) (simp_all only: q1 sum.inject pyfloat.inject pyfloat.distinct)
  ultimately
  have "requests_per_minute (Results_init ?t ?rs) = Inr (round_half_even 150)"
    and "requests_per_second (Results_init ?t ?rs) = Inr (round_half_even (5 / 2))"
    by simp_all
  with pos len ties show ?thesis
    by (simp only: round_half_even_values simp_thms)
qed

text \<open>
  C4 as stated fails where the float quotient overflows:
  \<^verbatim>\<open>Results(2.0 ** -1030, [r])\<close> has \<^verbatim>\<open>total_time > 0\<close>, the quotients \<^verbatim>\<open>1 / total_time\<close>
  and \<^verbatim>\<open>60 / total_time\<close> are \<^verbatim>\<open>inf\<close>, and both methods raise \<^verbatim>\<open>OverflowError\<close>.
\<close>

theorem tiny_total_time_overflows:
  "(0 :: rat) < 1 / 2 ^ 1030 \<and>
   requests_per_minute (Results_init (1 / 2 ^ 1030)
     [\<lparr>status_code = 200, request_time = 1\<rparr>]) = Inl OverflowError \<and>
   requests_per_second (Results_init (1 / 2 ^ 1030)
     [\<lparr>status_code = 200, request_time = 1\<rparr>]) = Inl OverflowError"
proof -
  let ?rs = "[\<lparr>status_code = 200, request_time = 1\<rparr>]"
  from truediv_overflow [OF int_to_double_60, of "1 / 2 ^ 1030"]
  have "truediv (60 * int (length ?rs)) (1 / 2 ^ 1030) = Inr PosInf"
    by simp
  then have "requests_per_minute (Results_init (1 / 2 ^ 1030) ?rs) = Inl OverflowError"
    by (simp only: requests_per_minute_infinite simp_thms)
  moreover from truediv_overflow [OF int_to_double_1, of "1 / 2 ^ 1030"]
  have "truediv (int (length ?rs)) (1 / 2 ^ 1030) = Inr PosInf"
    by simp
  then have "requests_per_second (Results_init (1 / 2 ^ 1030) ?rs) = Inl OverflowError"
    by (simp only: requests_per_second_infinite simp_thms)
  ultimately show ?thesis
    by simp
qed

text \<open>
  C5: for a non-empty list of requests, the stored list is sorted ascending by
  \<^verbatim>\<open>request_time\<close>; \<^verbatim>\<open>slowest()\<close> is the \<^verbatim>\<open>request_time\<close> of its last element, which is
  the maximum over all requests, and \<^verbatim>\<open>fastest()\<close> is the \<^verbatim>\<open>request_time\<close> of its first
  element, which is the minimum.
\<close>

theorem slowest_fastest_extremes:
  assumes "rs \<noteq> []"
  shows "sorted (map request_time (requests (Results_init t rs))) \<and>
    slowest (Results_init t rs) = Inr (request_time (last (requests (Results_init t rs)))) \<and>
    slowest (Results_init t rs) = Inr (Max (request_time ` set rs)) \<and>
    fastest (Results_init t rs) = Inr (request_time (hd (requests (Results_init t rs)))) \<and>
    fastest (Results_init t rs) = Inr (Min (request_time ` set rs))"
proof -
  from assms have ne: "requests (Results_init t rs) \<noteq> []"
    by (simp add: requests_init sort_key_Nil_iff)
  have "sorted (map request_time (requests (Results_init t rs)))"
    by (simp add: requests_init sorted_sort_key)
  moreover from ne
  have "slowest (Results_init t rs) = Inr (request_time (last (requests (Results_init t rs))))"
    by (simp add: slowest_def getitem_last)
  moreover from ne
  have "fastest (Results_init t rs) = Inr (request_time (hd (requests (Results_init t rs))))"
    by (simp add: fastest_def getitem_first)
  moreover note slowest_init [OF assms, of t] fastest_init [OF assms, of t]
  ultimately show ?thesis
    by (intro conjI)
qed

theorem slowest_fastest_extremes_witness:
  "doctest_requests \<noteq> [] \<and>
   slowest (Results_init (53 / 5) doctest_requests) = Inr (61 / 10) \<and>
   fastest (Results_init (53 / 5) doctest_requests) = Inr (26 / 25)"
proof -
  have ne: "doctest_requests \<noteq> []"
    by (simp add: doctest_requests_def)
  have mx: "Max (request_time ` set doctest_requests) = 61 / 10"
    and mn: "Min (request_time ` set doctest_requests) = 26 / 25"
    by code_simp+
  from slowest_fastest_extremes [OF ne, of "53 / 5"] ne
  show ?thesis
    unfolding mx mn by blast
qed

text \<open>
  C7: for a non-empty list of requests the three queries return values, and
  \<^verbatim>\<open>fastest() <= average_time() <= slowest()\<close>.
\<close>

theorem fastest_le_average_le_slowest:
  assumes "rs \<noteq> []"
  shows "\<exists>f a s. fastest (Results_init t rs) = Inr f \<and>
    average_time (Results_init t rs) = Inr a \<and>
    slowest (Results_init t rs) = Inr s \<and> f \<le> a \<and> a \<le> s"
proof -
  let ?ts = "map request_time rs"
  let ?n = "of_nat (length rs) :: rat"
  define f where "f = Min (set ?ts)"
  define s where "s = Max (set ?ts)"
  define a where "a = sum_list ?ts / ?n"
  from assms have n: "0 < ?n"
    by simp
  have "?n * f \<le> sum_list ?ts"
    using sum_list_lower [of ?ts f] by (simp add: f_def)
  with n have "f \<le> a"
    by (simp add: a_def pos_le_divide_eq mult.commute)
  moreover have "sum_list ?ts \<le> ?n * s"
    using sum_list_upper [of ?ts s] by (simp add: s_def)
  with n have "a \<le> s"
    by (simp add: a_def pos_divide_le_eq mult.commute)
  moreover from assms have "fastest (Results_init t rs) = Inr f"
    and "slowest (Results_init t rs) = Inr s"
    and "average_time (Results_init t rs) = Inr a"
    by (simp_all add: fastest_init slowest_init average_time_init f_def s_def a_def)
  ultimately show ?thesis
    by blast
qed

theorem fastest_le_average_le_slowest_witness:
  "doctest_requests \<noteq> [] \<and>
   (\<exists>f a s. fastest (Results_init (53 / 5) doctest_requests) = Inr f \<and>
     average_time (Results_init (53 / 5) doctest_requests) = Inr a \<and>
     slowest (Results_init (53 / 5) doctest_requests) = Inr s \<and> f \<le> a \<and> a \<le> s)"
proof -
  have ne: "doctest_requests \<noteq> []"
    by (simp add: doctest_requests_def)
  from fastest_le_average_le_slowest [OF ne, of "53 / 5"] ne
  show ?thesis
    by (intro conjI)
qed

text \<open>
  C8: two lists of requests with the same multiset of requests, and the same
  \<^verbatim>\<open>total_time\<close>, give the same result for each of the seven queries.
\<close>

theorem queries_permutation_invariant:
  assumes "mset rs = mset rs'"
  shows "slowest (Results_init t rs) = slowest (Results_init t rs') \<and>
    fastest (Results_init t rs) = fastest (Results_init t rs') \<and>
    average_time (Results_init t rs) = average_time (Results_init t rs') \<and>
    requests_total_time (Results_init t rs) = requests_total_time (Results_init t rs') \<and>
    successful_requests (Results_init t rs) = successful_requests (Results_init t rs') \<and>
    requests_per_minute (Results_init t rs) = requests_per_minute (Results_init t rs') \<and>
    requests_per_second (Results_init t rs) = requests_per_second (Results_init t rs')"
proof -
  from assms have len: "length rs = length rs'"
    by (rule mset_eq_length)
  then have nil: "rs = [] \<longleftrightarrow> rs' = []"
    by auto
  from assms have set: "set rs = set rs'"
    by (rule mset_eq_setD)
  have "mset (map request_time rs) = mset (map request_time rs')"
    using assms by simp
  then have total: "sum_list (map request_time rs) = sum_list (map request_time rs')"
    by (metis sum_mset_sum_list)
  have "mset (filter P rs) = mset (filter P rs')" for P
    using assms by simp
  then have count: "length (filter P rs) = length (filter P rs')" for P
    by (metis size_mset)
  have "slowest (Results_init t rs) = slowest (Results_init t rs')"
    and "fastest (Results_init t rs) = fastest (Results_init t rs')"
    using nil set by (cases "rs = []"; simp add: slowest_Nil fastest_Nil slowest_init fastest_init)+
  moreover have "average_time (Results_init t rs) = average_time (Results_init t rs')"
    by (simp add: average_time_init nil total len)
  moreover have "requests_total_time (Results_init t rs) = requests_total_time (Results_init t rs')"
    by (simp add: requests_total_time_init total)
  moreover have "successful_requests (Results_init t rs) = successful_requests (Results_init t rs')"
    by (simp add: successful_requests_init count)
  moreover have "requests_per_minute (Results_init t rs) = requests_per_minute (Results_init t rs')"
    and "requests_per_second (Results_init t rs) = requests_per_second (Results_init t rs')"
    by (simp_all add: requests_per_minute_init requests_per_second_init len)
  ultimately show ?thesis
    by (intro conjI)
qed

theorem queries_permutation_invariant_witness:
  "mset doctest_requests = mset (rev doctest_requests) \<and>
   slowest (Results_init (53 / 5) (rev doctest_requests)) = Inr (61 / 10) \<and>
   fastest (Results_init (53 / 5) (rev doctest_requests)) = Inr (26 / 25) \<and>
   average_time (Results_init (53 / 5) (rev doctest_requests)) = Inr (527 / 150) \<and>
   requests_total_time (Results_init (53 / 5) (rev doctest_requests)) = Inr (527 / 50) \<and>
   successful_requests (Results_init (53 / 5) (rev doctest_requests)) = Inr 2 \<and>
   requests_per_minute (Results_init (53 / 5) (rev doctest_requests)) = Inr 17 \<and>
   requests_per_second (Results_init (53 / 5) (rev doctest_requests)) = Inr 0"
proof -
  have perm: "mset doctest_requests = mset (rev doctest_requests)"
    by simp
  have "slowest (Results_init (53 / 5) doctest_requests) = Inr (61 / 10)"
    and "fastest (Results_init (53 / 5) doctest_requests) = Inr (26 / 25)"
    and "average_time (Results_init (53 / 5) doctest_requests) = Inr (527 / 150)"
    and "requests_total_time (Results_init (53 / 5) doctest_requests) = Inr (527 / 50)"
    and "successful_requests (Results_init (53 / 5) doctest_requests) = Inr 2"
    by code_simp+
  moreover have "requests_per_minute (Results_init (53 / 5) doctest_requests) = Inr 17"
    and "requests_per_second (Results_init (53 / 5) doctest_requests) = Inr 0"
    using doctest_throughput by simp_all
  ultimately show ?thesis
    using queries_permutation_invariant [OF perm, of "53 / 5"] perm
    by (simp only: simp_thms)
qed

text \<open>
  C9: on a \<^verbatim>\<open>Results\<close> built from an empty list, \<^verbatim>\<open>requests_total_time()\<close> returns \<open>0\<close>,
  the sum of an empty sequence, and raises nothing.
\<close>

theorem requests_total_time_empty:
  "requests_total_time (Results_init t []) = Inr 0"
  by (simp add: requests_total_time_def Results_init_def py_sum_def)

text \<open>
  C10, as amended: with \<open>n\<close> requests and a strictly negative \<^verbatim>\<open>total_time\<close> \<open>t\<close>, when
  the float quotient \<^verbatim>\<open>60 * n / t\<close> is finite, \<^verbatim>\<open>requests_per_minute()\<close> returns without an
  error that double rounded to the nearest integer, ties to even, which is not
  positive; when the quotient overflows to minus infinity it raises \<^verbatim>\<open>OverflowError\<close>;
  nothing else happens. The same holds of \<^verbatim>\<open>requests_per_second()\<close> and \<^verbatim>\<open>n / t\<close>.
\<close>

theorem negative_total_time_throughput:
  assumes "t < 0" and "length rs < 2 ^ 63"
  shows "((\<exists>q\<le>0. truediv (60 * int (length rs)) t = Inr (Finite q) \<and>
        requests_per_minute (Results_init t rs) = Inr (round_half_even q) \<and>
        round_half_even q \<le> 0) \<or>
      (truediv (60 * int (length rs)) t = Inr NegInf \<and>
        requests_per_minute (Results_init t rs) = Inl OverflowError)) \<and>
    ((\<exists>q\<le>0. truediv (int (length rs)) t = Inr (Finite q) \<and>
        requests_per_second (Results_init t rs) = Inr (round_half_even q) \<and>
        round_half_even q \<le> 0) \<or>
      (truediv (int (length rs)) t = Inr NegInf \<and>
        requests_per_second (Results_init t rs) = Inl OverflowError))"
proof -
  from length_to_double [OF assms(2)] obtain a b
    where a: "int_to_double (int (length rs)) = Inr a" "0 \<le> a"
      and b: "int_to_double (60 * int (length rs)) = Inr b" "0 \<le> b"
    by blast
  from truediv_neg [OF b assms(1)]
  have "(\<exists>q\<le>0. truediv (60 * int (length rs)) t = Inr (Finite q) \<and>
        requests_per_minute (Results_init t rs) = Inr (round_half_even q) \<and>
        round_half_even q \<le> 0) \<or>
      (truediv (60 * int (length rs)) t = Inr NegInf \<and>
        requests_per_minute (Results_init t rs) = Inl OverflowError)"
    by (auto simp: requests_per_minute_FiniteI requests_per_minute_infinite
        round_half_even_nonpos)
  moreover from truediv_neg [OF a assms(1)]
  have "(\<exists>q\<le>0. truediv (int (length rs)) t = Inr (Finite q) \<and>
        requests_per_second (Results_init t rs) = Inr (round_half_even q) \<and>
        round_half_even q \<le> 0) \<or>
      (truediv (int (length rs)) t = Inr NegInf \<and>
        requests_per_second (Results_init t rs) = Inl OverflowError)"
    by (auto simp: requests_per_second_FiniteI requests_per_second_infinite
        round_half_even_nonpos)
  ultimately show ?thesis
    by (intro conjI)
qed

theorem negative_total_time_throughput_witness:
  "(- (7205759403792793 / 18014398509481984) :: rat) < 0 \<and>
   length [\<lparr>status_code = 200, request_time = 1\<rparr>] < 2 ^ 63 \<and>
   requests_per_minute (Results_init (- (7205759403792793 / 18014398509481984))
     [\<lparr>status_code = 200, request_time = 1\<rparr>]) = Inr (- 150) \<and>
   requests_per_second (Results_init (- (7205759403792793 / 18014398509481984))
     [\<lparr>status_code = 200, request_time = 1\<rparr>]) = Inr (- 2)"
proof -
  let ?rs = "[\<lparr>status_code = 200, request_time = 1\<rparr>]"
  let ?t = "- (7205759403792793 / 18014398509481984) :: rat"
  have neg: "?t < 0"
    by simp
  have len: "length ?rs < 2 ^ 63"
    by simp
  have q60: "truediv (60 * int (length ?rs)) ?t = Inr (Finite (- 150))"
    by (simp add: truediv_60_neg_tie)
  have q1: "truediv (int (length ?rs)) ?t = Inr (Finite (- (5 / 2)))"
    by (simp add: truediv_1_neg_tie)
  from negative_total_time_throughput [OF neg len]
  have "requests_per_minute (Results_init ?t ?rs) = Inr (round_half_even (- 150))"
    and "requests_per_second (Results_init ?t ?rs) = Inr (round_half_even (- (5 / 2)))"
    unfolding q60 q1 by auto
  with neg len show ?thesis
    by (simp only: round_half_even_values simp_thms)
qed

text \<open>
  C10 as stated fails where the float quotient overflows: \<^verbatim>\<open>Results(-5e-324, [r])\<close> has
  a strictly negative \<^verbatim>\<open>total_time\<close> (the double \<open>- (1 / 2 ^ 1074)\<close>), the quotients are
  \<^verbatim>\<open>-inf\<close>, and both methods raise \<^verbatim>\<open>OverflowError\<close>.
\<close>

theorem tiny_negative_total_time_overflows:
  "(- (1 / 2 ^ 1074) :: rat) < 0 \<and>
   requests_per_minute (Results_init (- (1 / 2 ^ 1074))
     [\<lparr>status_code = 200, request_time = 1\<rparr>]) = Inl OverflowError \<and>
   requests_per_second (Results_init (- (1 / 2 ^ 1074))
     [\<lparr>status_code = 200, request_time = 1\<rparr>]) = Inl OverflowError"
proof -
  let ?rs = "[\<lparr>status_code = 200, request_time = 1\<rparr>]"
  from truediv_overflow [OF int_to_double_60, of "- (1 / 2 ^ 1074)"]
  have "truediv (60 * int (length ?rs)) (- (1 / 2 ^ 1074)) = Inr NegInf"
    by simp
  then have "requests_per_minute (Results_init (- (1 / 2 ^ 1074)) ?rs) = Inl OverflowError"
    by (simp only: requests_per_minute_infinite simp_thms)
  moreover from truediv_overflow [OF int_to_double_1, of "- (1 / 2 ^ 1074)"]
  have "truediv (int (length ?rs)) (- (1 / 2 ^ 1074)) = Inr NegInf"
    by simp
  then have "requests_per_second (Results_init (- (1 / 2 ^ 1074)) ?rs) = Inl OverflowError"
    by (simp only: requests_per_second_infinite simp_thms)
  ultimately show ?thesis
    by simp
qed

end
